theory Spec2Isabelle
  imports Complex_Main
begin

section \<open>Python values and exceptions\<close>

text \<open>
  The two source files are \<^verbatim>\<open>smartdispatch/utils.py\<close> and
  \<^verbatim>\<open>scripts/smart_dispatch.py\<close>. Python exceptions are values of the type
  \<open>error\<close>; a function that can raise returns \<open>error + 'a\<close> with \<open>Inl\<close> for the
  exception. Strings are byte strings (\<open>char list\<close>), as Python 2's \<^verbatim>\<open>str\<close>. Where
  the source builds the message of an exception the message is kept; the messages of
  exceptions that the library raises are shortened.
\<close>

datatype error =
    ValueError string
  | ZeroDivisionError
  | NameError string
  | UnboundLocalError string
  | TypeError
  | LookupError string
  | OSError string

section \<open>utils.chunks\<close>

text \<open>
  \<^verbatim>\<open>
  def chunks(sequence, n):
      """ Yield successive n-sized chunks from sequence. """
      for i in range(0, len(sequence), n):
          yield sequence[i:i + n]
  \<close>
  \<open>range_from i stop step\<close> lists \<open>i, i + step, ...\<close> below \<open>stop\<close> for a positive step.
  \<open>py_range stop step\<close> is \<^verbatim>\<open>range(0, stop, step)\<close> for \<open>stop \<ge> 0\<close>: a zero step raises
  ValueError, a negative step gives the empty range. \<open>slice xs lo hi\<close> is \<^verbatim>\<open>xs[lo:hi]\<close>
  for bounds that are not negative.
\<close>

function range_from :: "nat \<Rightarrow> nat \<Rightarrow> nat \<Rightarrow> nat list" where
  "range_from i stop step =
     (if step = 0 \<or> stop \<le> i then [] else i # range_from (i + step) stop step)"
  by pat_completeness auto
termination
  by (relation "measure (\<lambda>(i, stop, step). stop - i)") auto

declare range_from.simps [simp del]

definition py_range :: "nat \<Rightarrow> int \<Rightarrow> error + nat list" where
  "py_range stop step =
     (if step = 0 then Inl (ValueError ''range() arg 3 must not be zero'')
      else if step < 0 then Inr []
      else Inr (range_from 0 stop (nat step)))"

definition slice :: "'a list \<Rightarrow> nat \<Rightarrow> nat \<Rightarrow> 'a list" where
  "slice xs lo hi = take (hi - lo) (drop lo xs)"

definition chunks :: "'a list \<Rightarrow> int \<Rightarrow> error + 'a list list" where
  "chunks sequence n =
     (case py_range (length sequence) n of
        Inl e \<Rightarrow> Inl e
      | Inr idx \<Rightarrow> Inr (map (\<lambda>i. slice sequence i (i + nat n)) idx))"

section \<open>The chunking of main (smart\_dispatch.py, lines 80 to 85)\<close>

text \<open>
  \<^verbatim>\<open>
  nb_commands = len(commands)
  nb_jobs = int(math.ceil(nb_commands / float(args.nbCommandsPerNode)))
  nb_commands_per_file = int(math.ceil(nb_commands / float(nb_jobs)))
  ... utils.chunks(commands, n=nb_commands_per_file)
  \<close>
  \<open>per_node\<close> stands for \<^verbatim>\<open>args.nbCommandsPerNode\<close>.
  \<open>int_ceil_div a b\<close> is \<^verbatim>\<open>int(math.ceil(a / float(b)))\<close>: a float division by zero
  raises ZeroDivisionError. The quotient is taken exactly; the double-precision quotient
  has the same ceiling as long as \<open>a\<close> and \<open>b\<close> are below \<open>2^53\<close> in absolute value,
  which holds for the length of any list and any realistic option value.
\<close>

definition int_ceil_div :: "int \<Rightarrow> int \<Rightarrow> error + int" where
  "int_ceil_div a b = (if b = 0 then Inl ZeroDivisionError else Inr (- ((- a) div b)))"

definition nb_jobs_of :: "nat \<Rightarrow> int \<Rightarrow> error + int" where
  "nb_jobs_of nb_commands per_node = int_ceil_div (int nb_commands) per_node"

definition nb_commands_per_file_of :: "nat \<Rightarrow> int \<Rightarrow> error + int" where
  "nb_commands_per_file_of nb_commands per_node =
     (case nb_jobs_of nb_commands per_node of
        Inl e \<Rightarrow> Inl e
      | Inr nb_jobs \<Rightarrow> int_ceil_div (int nb_commands) nb_jobs)"

definition distribute :: "'a list \<Rightarrow> int \<Rightarrow> error + 'a list list" where
  "distribute commands per_node =
     (case nb_commands_per_file_of (length commands) per_node of
        Inl e \<Rightarrow> Inl e
      | Inr nb_commands_per_file \<Rightarrow> chunks commands nb_commands_per_file)"

section \<open>Decimal numerals: str and int\<close>

text \<open>
  \<open>str_nat\<close> is Python's \<^verbatim>\<open>str\<close> on a non-negative integer and \<open>str_int\<close> on any integer.
  \<open>is_digit\<close> is the class \<^verbatim>\<open>\d\<close> of a byte-string pattern, the ten ASCII digits.
  \<open>py_int\<close> is \<^verbatim>\<open>int(s)\<close> on a string: surrounding whitespace is stripped, one sign is
  allowed, and what remains must be a non-empty run of digits, otherwise ValueError.
\<close>

definition digit_char :: "nat \<Rightarrow> char" where
  "digit_char d = char_of (48 + d)"

function str_nat :: "nat \<Rightarrow> string" where
  "str_nat n = (if n < 10 then [digit_char n] else str_nat (n div 10) @ [digit_char (n mod 10)])"
  by pat_completeness auto
termination
  by (relation "measure id") auto

declare str_nat.simps [simp del]

definition str_int :: "int \<Rightarrow> string" where
  "str_int i = (if i < 0 then CHR ''-'' # str_nat (nat (- i)) else str_nat (nat i))"

definition is_digit :: "char \<Rightarrow> bool" where
  "is_digit c = (c \<in> set ''0123456789'')"

definition digit_value :: "char \<Rightarrow> nat" where
  "digit_value c = of_char c - 48"

definition digits_value :: "string \<Rightarrow> nat" where
  "digits_value ds = foldl (\<lambda>acc c. 10 * acc + digit_value c) 0 ds"

definition is_space :: "char \<Rightarrow> bool" where
  "is_space c = (c \<in> set [CHR '' '', CHR 0x09, CHR 0x0A, CHR 0x0B, CHR 0x0C, CHR 0x0D])"

definition strip :: "string \<Rightarrow> string" where
  "strip s = rev (dropWhile is_space (rev (dropWhile is_space s)))"

definition py_int :: "string \<Rightarrow> error + int" where
  "py_int s =
     (let t = strip s;
          (negative, ds) = (case t of
                              c # r \<Rightarrow> if c = CHR ''-'' then (True, r)
                                       else if c = CHR ''+'' then (False, r)
                                       else (False, t)
                            | [] \<Rightarrow> (False, t))
      in if ds \<noteq> [] \<and> list_all is_digit ds
         then Inr (if negative then - int (digits_value ds) else int (digits_value ds))
         else Inl (ValueError ''invalid literal for int() with base 10''))"

section \<open>utils.walltime\_to\_seconds\<close>

text \<open>
  \<^verbatim>\<open>
  TIME_REGEX = re.compile(
      "^(?:(?:(?:(\d*):)?(\d*):)?(\d*):)?(\d*)$")
  \<close>
  The pattern is kept as a term of the type \<open>regex\<close>. \<open>rmatch r s\<close> lists, in the order a
  backtracking matcher tries them, the rests of \<open>s\<close> after every way of matching \<open>r\<close> at
  its start. \<^verbatim>\<open>$\<close> holds at the end of the string and also just before a newline that
  ends the string, so \<open>regex_match\<close>, which is \<^verbatim>\<open>TIME_REGEX.match(s)\<close> being not None,
  accepts a rest that is empty or one newline.
\<close>

datatype regex =
    Digit_star
  | Chr char
  | Seq regex regex
  | Opt regex

fun digit_star :: "string \<Rightarrow> string list" where
  "digit_star [] = [[]]"
| "digit_star (c # cs) = (if is_digit c then digit_star cs @ [c # cs] else [c # cs])"

fun rmatch :: "regex \<Rightarrow> string \<Rightarrow> string list" where
  "rmatch Digit_star s = digit_star s"
| "rmatch (Chr c) s = (case s of [] \<Rightarrow> [] | x # xs \<Rightarrow> if x = c then [xs] else [])"
| "rmatch (Seq r1 r2) s = concat (map (rmatch r2) (rmatch r1 s))"
| "rmatch (Opt r) s = rmatch r s @ [s]"

definition at_end :: "string \<Rightarrow> bool" where
  "at_end rest = (rest = [] \<or> rest = [CHR 0x0A])"

definition regex_match :: "regex \<Rightarrow> string \<Rightarrow> bool" where
  "regex_match r s = list_ex at_end (rmatch r s)"

definition TIME_REGEX :: regex where
  "TIME_REGEX =
     Seq (Opt (Seq (Opt (Seq (Opt (Seq Digit_star (Chr CHR '':'')))
                             (Seq Digit_star (Chr CHR '':''))))
                   (Seq Digit_star (Chr CHR '':''))))
         Digit_star"

text \<open>
  \<^verbatim>\<open>
  def walltime_to_seconds(walltime):
      if not TIME_REGEX.match(walltime):
          raise ValueError(
              "Invalid walltime format: %s\n"
              "It must be either DD:HH:MM:SS, HH:MM:SS, MM:SS or S" %
              walltime)
      split = walltime.split(":")
      while len(split) < 4:
          split = [0] + split
      days, hours, minutes, seconds = list(map(int, split))
      return (((((days * 24) + hours) * 60) + minutes) * 60) + seconds
  \<close>
  \<open>split_on c s\<close> is \<^verbatim>\<open>s.split(c)\<close>. The list \<^verbatim>\<open>split\<close> holds strings and the integers
  \<open>0\<close> put in front of them, so its elements are of the type \<open>field\<close>; \<open>int_field\<close> is
  \<^verbatim>\<open>int\<close> on such an element and \<open>map_int\<close> is \<^verbatim>\<open>list(map(int, split))\<close>, which stops
  at the first element that raises. Unpacking into four names raises ValueError on a
  list of any other length.
\<close>

fun split_on :: "char \<Rightarrow> string \<Rightarrow> string list" where
  "split_on c [] = [[]]"
| "split_on c (x # xs) =
     (if x = c then [] # split_on c xs
      else (case split_on c xs of
              [] \<Rightarrow> [[x]]
            | w # ws \<Rightarrow> (x # w) # ws))"

datatype field = Int_field int | Str_field string

function pad_fields :: "field list \<Rightarrow> field list" where
  "pad_fields split = (if length split < 4 then pad_fields (Int_field 0 # split) else split)"
  by pat_completeness auto
termination
  by (relation "measure (\<lambda>split. 4 - length split)") auto

declare pad_fields.simps [simp del]

fun int_field :: "field \<Rightarrow> error + int" where
  "int_field (Int_field i) = Inr i"
| "int_field (Str_field s) = py_int s"

fun map_int :: "field list \<Rightarrow> error + int list" where
  "map_int [] = Inr []"
| "map_int (f # fs) =
     (case int_field f of
        Inl e \<Rightarrow> Inl e
      | Inr i \<Rightarrow> (case map_int fs of Inl e \<Rightarrow> Inl e | Inr is \<Rightarrow> Inr (i # is)))"

definition invalid_walltime :: "string \<Rightarrow> error" where
  "invalid_walltime walltime =
     ValueError (''Invalid walltime format: '' @ walltime @ [CHR 0x0A] @
                 ''It must be either DD:HH:MM:SS, HH:MM:SS, MM:SS or S'')"

definition walltime_to_seconds :: "string \<Rightarrow> error + int" where
  "walltime_to_seconds walltime =
     (if \<not> regex_match TIME_REGEX walltime then Inl (invalid_walltime walltime)
      else
        (case map_int (pad_fields (map Str_field (split_on CHR '':'' walltime))) of
           Inl e \<Rightarrow> Inl e
         | Inr [days, hours, minutes, seconds] \<Rightarrow>
             Inr ((((((days * 24) + hours) * 60) + minutes) * 60) + seconds)
         | Inr _ \<Rightarrow> Inl (ValueError ''need exactly 4 values to unpack'')))"

section \<open>utils.jobname\_generator\<close>

text \<open>
  \<^verbatim>\<open>
  def jobname_generator(jobname, job_id):
      # 64 - 1 since the total length including -1 should be less than 64
      job_id = str(job_id)
      if len(jobname) + len(job_id) > 63:
          croped_string = '{}_{}'.format(jobname[:63 - len(job_id)], job_id)
      else:
          croped_string = '{}_{}'.format(jobname, job_id)
      return croped_string
  \<close>
  A job id is an integer or already a string; \<open>str_job_id\<close> is \<^verbatim>\<open>str\<close> on it.
  \<open>slice_to xs k\<close> is \<^verbatim>\<open>xs[:k]\<close> for any integer \<open>k\<close>: a negative \<open>k\<close> counts from the end.
\<close>

datatype job_id = Id_int int | Id_str string

fun str_job_id :: "job_id \<Rightarrow> string" where
  "str_job_id (Id_int i) = str_int i"
| "str_job_id (Id_str s) = s"

definition slice_to :: "'a list \<Rightarrow> int \<Rightarrow> 'a list" where
  "slice_to xs k = (if 0 \<le> k then take (nat k) xs else take (nat (int (length xs) + k)) xs)"

definition jobname_generator :: "string \<Rightarrow> job_id \<Rightarrow> string" where
  "jobname_generator jobname job_id =
     (let job_id_str = str_job_id job_id
      in if length jobname + length job_id_str > 63
         then slice_to jobname (63 - int (length job_id_str)) @ ''_'' @ job_id_str
         else jobname @ ''_'' @ job_id_str)"

section \<open>Paths and job folders (smart\_dispatch.py)\<close>

text \<open>
  \<open>os_path_join\<close> is \<^verbatim>\<open>os.path.join\<close> of two components on a POSIX system: a second
  component that starts with a slash replaces the first one. The file system is the set
  of the paths that exist, all of them directories in which the process may create
  entries. \<open>os_makedirs\<close> raises OSError on a path that exists already and otherwise
  creates the path and the missing directories above it; \<open>ancestors p\<close> lists the
  prefixes of \<open>p\<close> that end just before a slash.
\<close>

definition LOGS_FOLDERNAME :: string where
  "LOGS_FOLDERNAME = ''SMART_DISPATCH_LOGS''"

definition os_path_join :: "string \<Rightarrow> string \<Rightarrow> string" where
  "os_path_join a b =
     (if take 1 b = ''/'' then b
      else if a = [] \<or> last a = CHR ''/'' then a @ b
      else a @ ''/'' @ b)"

type_synonym filesystem = "string set"

definition os_path_exists :: "filesystem \<Rightarrow> string \<Rightarrow> bool" where
  "os_path_exists fs p = (p \<in> fs)"

definition ancestors :: "string \<Rightarrow> string list" where
  "ancestors p = map (\<lambda>k. take k p) (filter (\<lambda>k. p ! k = CHR ''/'') [1..<length p])"

definition os_makedirs :: "filesystem \<Rightarrow> string \<Rightarrow> error + filesystem" where
  "os_makedirs fs p =
     (if os_path_exists fs p then Inl (OSError ''File exists'')
      else Inr (insert p (set (ancestors p) \<union> fs)))"

text \<open>
  \<^verbatim>\<open>
  def _gen_job_paths(jobname):
      path_smartdispatch_logs = os.path.join(os.getcwd(), LOGS_FOLDERNAME)
      path_job = os.path.join(path_smartdispatch_logs, jobname)
      path_job_logs = os.path.join(path_job, 'logs')
      path_job_commands = os.path.join(path_job, 'commands')
      return path_job_logs, path_job_commands
  \<close>
  The working directory \<^verbatim>\<open>os.getcwd()\<close> is the parameter \<open>cwd\<close>.
\<close>

definition gen_job_paths :: "string \<Rightarrow> string \<Rightarrow> string \<times> string" where
  "gen_job_paths cwd jobname =
     (let path_smartdispatch_logs = os_path_join cwd LOGS_FOLDERNAME;
          path_job = os_path_join path_smartdispatch_logs jobname;
          path_job_logs = os_path_join path_job ''logs'';
          path_job_commands = os_path_join path_job ''commands''
      in (path_job_logs, path_job_commands))"

text \<open>
  \<^verbatim>\<open>
  def get_job_folders(jobname):
      path_job_logs, path_job_commands = _gen_job_paths(jobname)
      if not os.path.exists(path_job_commands):
          raise LookupError("Batch UID ({0}) does not exist! Cannot resume.".format(jobname))
      if not os.path.exists(path_job_logs):
          os.makedirs(path_job_logs)
      return path_job_logs, path_job_commands
  \<close>
  Both folder functions return the two paths together with the file system they leave.
\<close>

definition unknown_batch :: "string \<Rightarrow> error" where
  "unknown_batch jobname =
     LookupError (''Batch UID ('' @ jobname @ '') does not exist! Cannot resume.'')"

definition get_job_folders ::
  "string \<Rightarrow> string \<Rightarrow> filesystem \<Rightarrow> error + ((string \<times> string) \<times> filesystem)" where
  "get_job_folders cwd jobname fs =
     (case gen_job_paths cwd jobname of
        (path_job_logs, path_job_commands) \<Rightarrow>
          if \<not> os_path_exists fs path_job_commands then Inl (unknown_batch jobname)
          else
            (case (if \<not> os_path_exists fs path_job_logs then os_makedirs fs path_job_logs
                   else Inr fs) of
               Inl e \<Rightarrow> Inl e
             | Inr fs1 \<Rightarrow> Inr ((path_job_logs, path_job_commands), fs1)))"

text \<open>
  \<^verbatim>\<open>
  def create_job_folders(jobname):
      """Creates the folders where the logs, commands and QSUB files will be saved."""
      path_job_logs, path_job_commands = _gen_job_paths(jobname)
      if not os.path.exists(path_job_commands):
          os.makedirs(path_job_commands)
      if not os.path.exists(path_job_logs):
          os.makedirs(path_job_logs)
      return path_job_logs, path_job_commands
  \<close>
\<close>

definition create_job_folders ::
  "string \<Rightarrow> string \<Rightarrow> filesystem \<Rightarrow> error + ((string \<times> string) \<times> filesystem)" where
  "create_job_folders cwd jobname fs =
     (case gen_job_paths cwd jobname of
        (path_job_logs, path_job_commands) \<Rightarrow>
          (case (if \<not> os_path_exists fs path_job_commands then os_makedirs fs path_job_commands
                 else Inr fs) of
             Inl e \<Rightarrow> Inl e
           | Inr fs1 \<Rightarrow>
               (case (if \<not> os_path_exists fs1 path_job_logs then os_makedirs fs1 path_job_logs
                      else Inr fs1) of
                  Inl e \<Rightarrow> Inl e
                | Inr fs2 \<Rightarrow> Inr ((path_job_logs, path_job_commands), fs2))))"

section \<open>main (smart\_dispatch.py)\<close>

text \<open>
  \<open>arguments\<close> holds the fields of \<^verbatim>\<open>args\<close> that main reads after parse\_arguments
  (\<^verbatim>\<open>queueName\<close> and \<^verbatim>\<open>walltime\<close> only reach the constructor of the script builder).
  Lines 43 to 53 call into the package \<^verbatim>\<open>smartdispatch\<close>, whose code is not among the
  sources: their results, the job name and the command list after
  \<^verbatim>\<open>replace_uid_tag\<close>, are the record \<open>launch_job\<close>. The record \<open>externals\<close> holds the
  two other things main takes from outside the sources:
  \<^verbatim>\<open>smartdispatch.generate_name_from_command(command, max_length_arg=30)\<close> and the
  attribute \<^verbatim>\<open>_commands_filename\<close> of a \<^verbatim>\<open>CommandManager\<close> built on a file name.
  The calls on the script builder \<^verbatim>\<open>pbs\<close> and on the command manager are recorded in
  the order they are made.
\<close>

datatype mode = Launch | Resume

record arguments =
  mode :: mode
  pool :: "int option"
  nbCommandsPerNode :: int
  doNotLaunch :: bool
  batch_uid :: string

record launch_job =
  job_name :: string
  job_commands :: "string list"

record externals =
  generate_name_from_command :: "string \<Rightarrow> string"
  commands_filename_of :: "string \<Rightarrow> string"

datatype pbs_call = Add_commands "string list" | Save string | Clear_commands

datatype manager_call =
    New_manager string
  | Set_commands_to_run "string list"
  | Reset_running_commands

text \<open>
  The names bound at module level in smart\_dispatch.py are the imports \<^verbatim>\<open>os\<close>,
  \<^verbatim>\<open>argparse\<close>, \<^verbatim>\<open>math\<close>, \<^verbatim>\<open>check_output\<close>, \<^verbatim>\<open>utils\<close>, \<^verbatim>\<open>CommandManager\<close>,
  \<^verbatim>\<open>PBSGenerator\<close>, \<^verbatim>\<open>smartdispatch\<close>, the two constants and the five functions.
  A name that a function reads without ever assigning it is looked up there (and then
  among the builtins, which have none of the names used below): \<open>load_global\<close> raises
  NameError for a name that is not bound, and \<open>as_path\<close> is the use of the value as a
  path component, which only a string allows.
\<close>

datatype global_value = Str_value string | Dict_value | Module_value | Class_value | Function_value

definition module_globals :: "(string \<times> global_value) list" where
  "module_globals =
     [(''os'', Module_value), (''argparse'', Module_value), (''math'', Module_value),
      (''check_output'', Function_value), (''utils'', Module_value),
      (''CommandManager'', Class_value), (''PBSGenerator'', Class_value),
      (''smartdispatch'', Module_value),
      (''LOGS_FOLDERNAME'', Str_value LOGS_FOLDERNAME), (''AVAILABLE_QUEUES'', Dict_value),
      (''main'', Function_value), (''parse_arguments'', Function_value),
      (''_gen_job_paths'', Function_value), (''get_job_folders'', Function_value),
      (''create_job_folders'', Function_value)]"

definition load_global :: "string \<Rightarrow> error + global_value" where
  "load_global name =
     (case map_of module_globals name of
        None \<Rightarrow> Inl (NameError name)
      | Some v \<Rightarrow> Inr v)"

fun as_path :: "global_value \<Rightarrow> error + string" where
  "as_path (Str_value s) = Inr s"
| "as_path _ = Inl TypeError"

text \<open>
  Lines 59 to 71, the pool of workers:
  \<^verbatim>\<open>
  if args.pool is not None:
      command_manager = CommandManager(os.path.join(qsub_directory, "commands.txt"))
      # If resume mode, reset running jobs
      if args.mode == "launch":
          command_manager.set_commands_to_run(commands)
      else:
          command_manager.reset_running_commands()
      worker_command = 'smart_worker.py "{0}" "{1}"'.format(command_manager._commands_filename, path_job_logs)
      # Replace commands with `args.pool` workers
      commands = [worker_command] * args.pool
  \<close>
  The local variable \<^verbatim>\<open>commands\<close> is bound in launch mode only, so it is an option here.
  \<open>pool_workers\<close> is lines 69 and 71 for a command manager whose file name is known.
\<close>

definition worker_command :: "string \<Rightarrow> string \<Rightarrow> string" where
  \<open>worker_command commands_filename path_job_logs =
     ''smart_worker.py "'' @ commands_filename @ ''" "'' @ path_job_logs @ ''"''\<close>

definition pool_workers :: "string \<Rightarrow> string \<Rightarrow> int \<Rightarrow> string list" where
  "pool_workers commands_filename path_job_logs p =
     replicate (nat p) (worker_command commands_filename path_job_logs)"

definition pool_block ::
  "externals \<Rightarrow> arguments \<Rightarrow> string list option \<Rightarrow> string \<Rightarrow>
   error + (string list option \<times> manager_call list)" where
  "pool_block ext args commands path_job_logs =
     (case pool args of
        None \<Rightarrow> Inr (commands, [])
      | Some p \<Rightarrow>
          (case load_global ''qsub_directory'' of
             Inl e \<Rightarrow> Inl e
           | Inr v \<Rightarrow>
               (case as_path v of
                  Inl e \<Rightarrow> Inl e
                | Inr qsub_directory \<Rightarrow>
                    (let file = os_path_join qsub_directory ''commands.txt'';
                         workers = pool_workers (commands_filename_of ext file) path_job_logs p
                     in if mode args = Launch
                        then (case commands of
                                None \<Rightarrow> Inl (UnboundLocalError ''commands'')
                              | Some cs \<Rightarrow>
                                  Inr (Some workers, [New_manager file, Set_commands_to_run cs]))
                        else Inr (Some workers, [New_manager file, Reset_running_commands])))))"

text \<open>
  Lines 73 to 77, the redirections of the output and error logs:
  \<^verbatim>\<open>
  for i, command in enumerate(commands):
      log_filename = os.path.join(path_job_logs, smartdispatch.generate_name_from_command(command, max_length_arg=30))
      commands[i] += ' 1>> "{output_log}"'.format(output_log=log_filename + ".o")
      commands[i] += ' 2>> "{error_log}"'.format(error_log=log_filename + ".e")
  \<close>
\<close>

definition add_redirect :: "externals \<Rightarrow> string \<Rightarrow> string \<Rightarrow> string" where
  \<open>add_redirect ext path_job_logs command =
     (let log_filename = os_path_join path_job_logs (generate_name_from_command ext command)
      in command @ '' 1>> "'' @ (log_filename @ ''.o'') @ ''"''
                 @ '' 2>> "'' @ (log_filename @ ''.e'') @ ''"'')\<close>

definition add_redirects :: "externals \<Rightarrow> string \<Rightarrow> string list \<Rightarrow> string list" where
  "add_redirects ext path_job_logs commands = map (add_redirect ext path_job_logs) commands"

text \<open>
  Lines 84 to 90, one script per group:
  \<^verbatim>\<open>
  qsub_filenames = []
  for i, commands_per_file in enumerate(utils.chunks(commands, n=nb_commands_per_file)):
      qsub_filename = os.path.join(path_job_commands, 'job_commands_' + str(i) + '.sh')
      pbs.add_commands(*commands_per_file)
      pbs.save(qsub_filename)
      pbs.clear_commands()
      qsub_filenames.append(qsub_filename)
  \<close>
  \<open>job_step\<close> is one turn of the loop on the pair of the calls made on \<^verbatim>\<open>pbs\<close> so far and
  \<^verbatim>\<open>qsub_filenames\<close>; \<open>write_jobs\<close> is the loop and \<open>generate_qsub_files\<close> is lines 80
  to 90.
\<close>

definition qsub_filename_of :: "string \<Rightarrow> nat \<Rightarrow> string" where
  "qsub_filename_of path_job_commands i =
     os_path_join path_job_commands (''job_commands_'' @ str_nat i @ ''.sh'')"

definition job_step ::
  "string \<Rightarrow> pbs_call list \<times> string list \<Rightarrow> nat \<times> string list \<Rightarrow> pbs_call list \<times> string list" where
  "job_step path_job_commands st ig =
     (case st of (calls, qsub_filenames) \<Rightarrow>
      case ig of (i, commands_per_file) \<Rightarrow>
        (let qsub_filename = qsub_filename_of path_job_commands i
         in (calls @ [Add_commands commands_per_file, Save qsub_filename, Clear_commands],
             qsub_filenames @ [qsub_filename])))"

definition write_jobs :: "string \<Rightarrow> string list list \<Rightarrow> pbs_call list \<times> string list" where
  "write_jobs path_job_commands groups =
     foldl (job_step path_job_commands) ([], []) (enumerate 0 groups)"

definition generate_qsub_files ::
  "string list \<Rightarrow> int \<Rightarrow> string \<Rightarrow> error + (pbs_call list \<times> string list)" where
  "generate_qsub_files commands per_node path_job_commands =
     (case distribute commands per_node of
        Inl e \<Rightarrow> Inl e
      | Inr groups \<Rightarrow> Inr (write_jobs path_job_commands groups))"

text \<open>
  Lines 92 to 96 run \<^verbatim>\<open>qsub\<close> on every script unless \<^verbatim>\<open>args.doNotLaunch\<close> is set; the
  shell commands are recorded, and the scheduler is taken to accept them. \<open>main\<close>
  returns what the run leaves: the file system, the calls on the command manager and
  on the script builder, the script names and the submissions.
\<close>

record outcome =
  files :: filesystem
  manager_calls :: "manager_call list"
  pbs_calls :: "pbs_call list"
  qsub_filenames :: "string list"
  submitted :: "string list"

definition main ::
  "externals \<Rightarrow> arguments \<Rightarrow> launch_job \<Rightarrow> string \<Rightarrow> filesystem \<Rightarrow> error + outcome" where
  "main ext args job cwd fs =
     (case (if mode args = Launch then create_job_folders cwd (job_name job) fs
            else get_job_folders cwd (batch_uid args) fs) of
        Inl e \<Rightarrow> Inl e
      | Inr ((path_job_logs, path_job_commands), fs1) \<Rightarrow>
          (case pool_block ext args
                  (if mode args = Launch then Some (job_commands job) else None)
                  path_job_logs of
             Inl e \<Rightarrow> Inl e
           | Inr (None, _) \<Rightarrow> Inl (UnboundLocalError ''commands'')
           | Inr (Some commands, calls) \<Rightarrow>
               (case generate_qsub_files (add_redirects ext path_job_logs commands)
                       (nbCommandsPerNode args) path_job_commands of
                  Inl e \<Rightarrow> Inl e
                | Inr (pbs, names) \<Rightarrow>
                    Inr \<lparr>files = fs1, manager_calls = calls, pbs_calls = pbs,
                         qsub_filenames = names,
                         submitted = (if doNotLaunch args then []
                                      else map (\<lambda>name. ''qsub '' @ name) names)\<rparr>)))"

section \<open>Notions used in the proofs\<close>


text \<open>
  \<open>FIELD\<close> is the part \<^verbatim>\<open>(\d*):\<close> that TIME\_REGEX repeats, and \<open>digits f\<close> says that
  \<open>f\<close> is a non-empty run of digits; both serve to state the lemmas on
  walltime\_to\_seconds.
\<close>

definition FIELD :: regex where
  "FIELD = Seq Digit_star (Chr CHR '':'')"

definition digits :: "string \<Rightarrow> bool" where
  "digits f = (f \<noteq> [] \<and> list_all is_digit f)"

text \<open>
  \<open>valid_walltime\<close> follows the words of the claim on walltime\_to\_seconds: cut at its
  colons, the string gives one to four fields, each a non-empty run of digits
  (\<open>split_on\<close> never gives less than one field). \<open>seconds_of_fields\<close> is the number of
  seconds for the values of these fields, the missing leading ones counting as zero
  (it is only used on one to four values).
  \<open>join_on\<close> undoes \<open>split_on\<close>, and \<open>colon_fields\<close> writes fields that are each followed
  by a colon.
\<close>

fun join_on :: "char \<Rightarrow> string list \<Rightarrow> string" where
  "join_on c [] = []"
| "join_on c [w] = w"
| "join_on c (w # v # ws) = w @ c # join_on c (v # ws)"

definition valid_walltime :: "string \<Rightarrow> bool" where
  "valid_walltime w = (length (split_on CHR '':'' w) \<le> 4 \<and> list_all digits (split_on CHR '':'' w))"

fun seconds_of_fields :: "int list \<Rightarrow> int" where
  "seconds_of_fields [d, h, m, s] = ((d * 24 + h) * 60 + m) * 60 + s"
| "seconds_of_fields [h, m, s] = (h * 60 + m) * 60 + s"
| "seconds_of_fields [m, s] = m * 60 + s"
| "seconds_of_fields [s] = s"
| "seconds_of_fields _ = 0"

definition colon_fields :: "string list \<Rightarrow> string" where
  "colon_fields fs = concat (map (\<lambda>f. f @ '':'') fs)"

section \<open>Lemmas on ranges and slices\<close>

lemma range_from_step:
  "0 < step \<Longrightarrow> i < stop \<Longrightarrow> range_from i stop step = i # range_from (i + step) stop step"
  by (subst range_from.simps) simp

lemma range_from_done: "stop \<le> i \<Longrightarrow> range_from i stop step = []"
  by (subst range_from.simps) simp

lemma concat_slices:
  "0 < n \<Longrightarrow> concat (map (\<lambda>i. slice xs i (i + n)) (range_from i (length xs) n)) = drop i xs"
proof (induction i "length xs" n rule: range_from.induct)
  case (1 i step)
  show ?case
  proof (cases "i < length xs")
    case True
    have "take step (drop i xs) @ drop (i + step) xs = drop i xs"
      by (metis add.commute append_take_drop_id drop_drop)
    with 1 True show ?thesis
      by (simp add: range_from_step slice_def)
  next
    case False
    then show ?thesis by (simp add: range_from_done)
  qed
qed

lemma chunks_pos:
  "0 < n \<Longrightarrow>
   chunks xs n = Inr (map (\<lambda>i. slice xs i (i + nat n)) (range_from 0 (length xs) (nat n)))"
  by (simp add: chunks_def py_range_def)



section \<open>Lemmas on ceiling division\<close>









section \<open>Lemmas on the chunking of main\<close>







section \<open>Claims on the chunking\<close>

text \<open>
  Claim C2. For every sequence and every chunk size \<open>n > 0\<close>, \<open>chunks\<close> returns (it does
  not raise), and the groups it yields, concatenated in order, are the sequence itself:
  nothing is reordered, added or dropped.
\<close>

theorem chunks_concat:
  "0 < n \<Longrightarrow> \<exists>groups. chunks sequence n = Inr groups \<and> concat groups = sequence"
  using concat_slices [of "nat n" sequence 0] by (simp add: chunks_pos)

text \<open>Claim C2 at three commands and chunk size 2.\<close>

theorem chunks_concat_witness:
  "(0::int) < 2 \<and> (\<exists>groups. chunks [''echo a'', ''echo b'', ''echo c''] 2 = Inr groups
      \<and> concat groups = [''echo a'', ''echo b'', ''echo c''])"
  using chunks_concat [of 2 "[''echo a'', ''echo b'', ''echo c'']"] by simp




text \<open>
  Claim C4 does not hold of the code. With no command \<open>nb_jobs\<close> is \<open>0\<close>, and line 82
  divides by \<open>float(nb_jobs)\<close>: the chunking raises ZeroDivisionError instead of
  yielding zero groups.
\<close>

theorem distribute_empty:
  "0 < per_node \<Longrightarrow> distribute [] per_node = Inl ZeroDivisionError"
  by (simp add: distribute_def nb_commands_per_file_of_def nb_jobs_of_def int_ceil_div_def)

text \<open>Claim C4 at the empty command list and one command per node.\<close>

theorem distribute_empty_witness:
  "(0::int) < 1 \<and> distribute ([] :: string list) 1 = Inl ZeroDivisionError"
  using distribute_empty [of 1] by simp

section \<open>Lemmas on job folders\<close>

lemma get_job_folders_missing:
  "\<not> os_path_exists fs (snd (gen_job_paths cwd jobname)) \<Longrightarrow>
   get_job_folders cwd jobname fs = Inl (unknown_batch jobname)"
  by (cases "gen_job_paths cwd jobname") (simp add: get_job_folders_def)

lemma get_job_folders_present:
  assumes "os_path_exists fs (snd (gen_job_paths cwd jobname))"
  shows "get_job_folders cwd jobname fs =
         Inr (gen_job_paths cwd jobname,
              if os_path_exists fs (fst (gen_job_paths cwd jobname)) then fs
              else insert (fst (gen_job_paths cwd jobname))
                     (set (ancestors (fst (gen_job_paths cwd jobname))) \<union> fs))"
  using assms by (cases "gen_job_paths cwd jobname") (simp add: get_job_folders_def os_makedirs_def)

lemma create_job_folders_total:
  "create_job_folders cwd jobname fs =
     Inr (gen_job_paths cwd jobname,
          (let fs1 = (if os_path_exists fs (snd (gen_job_paths cwd jobname)) then fs
                      else insert (snd (gen_job_paths cwd jobname))
                             (set (ancestors (snd (gen_job_paths cwd jobname))) \<union> fs))
           in if os_path_exists fs1 (fst (gen_job_paths cwd jobname)) then fs1
              else insert (fst (gen_job_paths cwd jobname))
                     (set (ancestors (fst (gen_job_paths cwd jobname))) \<union> fs1)))"
  by (cases "gen_job_paths cwd jobname") (simp add: create_job_folders_def os_makedirs_def Let_def)

lemma gen_job_paths_example:
  "gen_job_paths ''/home/u'' ''job1'' =
     (''/home/u/SMART_DISPATCH_LOGS/job1/logs'', ''/home/u/SMART_DISPATCH_LOGS/job1/commands'')"
  by (simp add: gen_job_paths_def os_path_join_def LOGS_FOLDERNAME_def)

section \<open>Lemmas on the script files\<close>

lemma digit_value_digit_char: "d < 10 \<Longrightarrow> digit_value (digit_char d) = d"
  by (simp add: digit_value_def digit_char_def)

lemma digits_value_snoc: "digits_value (ds @ [c]) = 10 * digits_value ds + digit_value c"
  by (simp add: digits_value_def)

lemma digits_value_str_nat: "digits_value (str_nat n) = n"
proof (induction n rule: str_nat.induct)
  case (1 n)
  show ?case
  proof (cases "n < 10")
    case True
    then show ?thesis
      by (subst str_nat.simps) (simp add: digits_value_def digit_value_digit_char)
  next
    case False
    with 1 have IH: "digits_value (str_nat (n div 10)) = n div 10" by simp
    have "str_nat n = str_nat (n div 10) @ [digit_char (n mod 10)]"
      using False by (subst str_nat.simps) simp
    then show ?thesis
      by (simp add: digits_value_snoc IH digit_value_digit_char)
  qed
qed

lemma str_nat_inj: "str_nat m = str_nat n \<Longrightarrow> m = n"
  by (metis digits_value_str_nat)

lemma qsub_filename_of_inj:
  "qsub_filename_of path i = qsub_filename_of path j \<Longrightarrow> i = j"
proof -
  assume eq: "qsub_filename_of path i = qsub_filename_of path j"
  define pre where "pre = (if path = [] \<or> last path = CHR ''/'' then path else path @ ''/'')"
  have shape: "qsub_filename_of path k = pre @ ''job_commands_'' @ str_nat k @ ''.sh''" for k
    by (simp add: qsub_filename_of_def os_path_join_def pre_def)
  from eq have "str_nat i @ ''.sh'' = str_nat j @ ''.sh''"
    unfolding shape by simp
  then have "str_nat i = str_nat j" by simp
  then show ?thesis by (rule str_nat_inj)
qed

lemma distinct_qsub_filenames: "distinct (map (qsub_filename_of path) [k..<k + n])"
  by (simp add: distinct_map inj_on_def) (metis qsub_filename_of_inj)

lemma foldl_job_step:
  "foldl (job_step path) (calls, names) (enumerate k groups) =
     (calls @ concat (map2 (\<lambda>g name. [Add_commands g, Save name, Clear_commands]) groups
                        (map (qsub_filename_of path) [k..<k + length groups])),
      names @ map (qsub_filename_of path) [k..<k + length groups])"
proof (induction groups arbitrary: calls names k)
  case Nil
  then show ?case by simp
next
  case (Cons g groups)
  have "[k..<k + length (g # groups)] = k # [Suc k..<k + length (g # groups)]"
    by (rule upt_conv_Cons) simp
  moreover have "k + length (g # groups) = Suc k + length groups" by simp
  ultimately have up: "[k..<k + length (g # groups)] = k # [Suc k..<Suc k + length groups]"
    by (simp only:)
  have step: "job_step path (calls, names) (k, g) =
                (calls @ [Add_commands g, Save (qsub_filename_of path k), Clear_commands],
                 names @ [qsub_filename_of path k])"
    by (simp add: job_step_def Let_def)
  have "foldl (job_step path) (calls, names) (enumerate k (g # groups)) =
        foldl (job_step path) (job_step path (calls, names) (k, g)) (enumerate (Suc k) groups)"
    by simp
  also have "\<dots> =
      ((calls @ [Add_commands g, Save (qsub_filename_of path k), Clear_commands]) @
         concat (map2 (\<lambda>g name. [Add_commands g, Save name, Clear_commands]) groups
                   (map (qsub_filename_of path) [Suc k..<Suc k + length groups])),
       (names @ [qsub_filename_of path k]) @
         map (qsub_filename_of path) [Suc k..<Suc k + length groups])"
    unfolding step by (rule Cons.IH)
  finally show ?case
    unfolding up by simp
qed

lemma write_jobs_eq:
  "write_jobs path groups =
     (concat (map2 (\<lambda>g name. [Add_commands g, Save name, Clear_commands]) groups
                (map (qsub_filename_of path) [0..<length groups])),
      map (qsub_filename_of path) [0..<length groups])"
  using foldl_job_step [of path "[]" "[]" 0 groups] by (simp add: write_jobs_def)

lemma distribute_example:
  "distribute [''echo a'', ''echo b'', ''echo c''] 2 = Inr [[''echo a'', ''echo b''], [''echo c'']]"
  by code_simp

section \<open>Lemmas on the pool of workers\<close>

lemma pool_block_name_error:
  "pool args = Some p \<Longrightarrow>
   pool_block ext args commands path_job_logs = Inl (NameError ''qsub_directory'')"
  by (simp add: pool_block_def load_global_def module_globals_def)

lemma main_launch_pool:
  assumes "pool args = Some p" "mode args = Launch"
  shows "main ext args job cwd fs = Inl (NameError ''qsub_directory'')"
  using assms
  by (cases "gen_job_paths cwd (job_name job)")
     (simp add: main_def create_job_folders_total pool_block_name_error)

lemma main_resume_pool:
  assumes "pool args = Some p" "mode args = Resume"
  shows "main ext args job cwd fs =
         (if os_path_exists fs (snd (gen_job_paths cwd (batch_uid args)))
          then Inl (NameError ''qsub_directory'')
          else Inl (unknown_batch (batch_uid args)))"
proof (cases "os_path_exists fs (snd (gen_job_paths cwd (batch_uid args)))")
  case True
  show ?thesis
    using assms True
    by (cases "gen_job_paths cwd (batch_uid args)")
       (simp add: main_def get_job_folders_present pool_block_name_error)
next
  case False
  show ?thesis
    using assms False by (simp add: main_def get_job_folders_missing)
qed


section \<open>Lemmas on walltime\_to\_seconds\<close>

lemma digit_star_self: "s \<in> set (digit_star s)"
  by (cases s) simp_all

lemma digit_star_rest: "list_all is_digit ds \<Longrightarrow> rest \<in> set (digit_star (ds @ rest))"
  by (induction ds) (simp_all add: digit_star_self)

lemma rmatch_FIELD:
  "list_all is_digit ds \<Longrightarrow> rest \<in> set (rmatch FIELD (ds @ CHR '':'' # rest))"
  using digit_star_rest [of ds "CHR '':'' # rest"] by (force simp: FIELD_def)

lemma rmatch_Seq: "r \<in> set (rmatch a s) \<Longrightarrow> t \<in> set (rmatch b r) \<Longrightarrow> t \<in> set (rmatch (Seq a b) s)"
  by auto

lemma rmatch_Opt_skip: "s \<in> set (rmatch (Opt a) s)"
  by simp

lemma rmatch_Opt_take: "r \<in> set (rmatch a s) \<Longrightarrow> r \<in> set (rmatch (Opt a) s)"
  by simp

lemma TIME_REGEX_FIELD:
  "TIME_REGEX = Seq (Opt (Seq (Opt (Seq (Opt FIELD) FIELD)) FIELD)) Digit_star"
  by (simp add: TIME_REGEX_def FIELD_def)

lemma match_end: "[] \<in> set (rmatch r s) \<Longrightarrow> regex_match r s"
  by (auto simp: regex_match_def list_ex_iff at_end_def)

lemma match1:
  assumes "list_all is_digit s"
  shows "regex_match TIME_REGEX s"
proof -
  have "[] \<in> set (rmatch Digit_star s)" using digit_star_rest [OF assms, of "[]"] by simp
  then have "[] \<in> set (rmatch TIME_REGEX s)"
    unfolding TIME_REGEX_FIELD by (rule rmatch_Seq [OF rmatch_Opt_skip])
  then show ?thesis by (rule match_end)
qed

lemma match2:
  assumes "list_all is_digit m" "list_all is_digit s"
  shows "regex_match TIME_REGEX (m @ CHR '':'' # s)"
proof -
  have "s \<in> set (rmatch (Seq (Opt (Seq (Opt FIELD) FIELD)) FIELD) (m @ CHR '':'' # s))"
    by (rule rmatch_Seq [OF rmatch_Opt_skip rmatch_FIELD [OF assms(1)]])
  then have "s \<in> set (rmatch (Opt (Seq (Opt (Seq (Opt FIELD) FIELD)) FIELD)) (m @ CHR '':'' # s))"
    by (rule rmatch_Opt_take)
  moreover have "[] \<in> set (rmatch Digit_star s)" using digit_star_rest [OF assms(2), of "[]"] by simp
  ultimately have "[] \<in> set (rmatch TIME_REGEX (m @ CHR '':'' # s))"
    unfolding TIME_REGEX_FIELD by (rule rmatch_Seq)
  then show ?thesis by (rule match_end)
qed

lemma match3:
  assumes "list_all is_digit h" "list_all is_digit m" "list_all is_digit s"
  shows "regex_match TIME_REGEX (h @ CHR '':'' # m @ CHR '':'' # s)"
proof -
  have "m @ CHR '':'' # s \<in> set (rmatch (Seq (Opt FIELD) FIELD) (h @ CHR '':'' # m @ CHR '':'' # s))"
    by (rule rmatch_Seq [OF rmatch_Opt_skip rmatch_FIELD [OF assms(1)]])
  then have "m @ CHR '':'' # s \<in> set (rmatch (Opt (Seq (Opt FIELD) FIELD)) (h @ CHR '':'' # m @ CHR '':'' # s))"
    by (rule rmatch_Opt_take)
  then have "s \<in> set (rmatch (Seq (Opt (Seq (Opt FIELD) FIELD)) FIELD) (h @ CHR '':'' # m @ CHR '':'' # s))"
    by (rule rmatch_Seq [OF _ rmatch_FIELD [OF assms(2)]])
  then have "s \<in> set (rmatch (Opt (Seq (Opt (Seq (Opt FIELD) FIELD)) FIELD)) (h @ CHR '':'' # m @ CHR '':'' # s))"
    by (rule rmatch_Opt_take)
  moreover have "[] \<in> set (rmatch Digit_star s)" using digit_star_rest [OF assms(3), of "[]"] by simp
  ultimately have "[] \<in> set (rmatch TIME_REGEX (h @ CHR '':'' # m @ CHR '':'' # s))"
    unfolding TIME_REGEX_FIELD by (rule rmatch_Seq)
  then show ?thesis by (rule match_end)
qed

lemma match4:
  assumes "list_all is_digit d" "list_all is_digit h" "list_all is_digit m" "list_all is_digit s"
  shows "regex_match TIME_REGEX (d @ CHR '':'' # h @ CHR '':'' # m @ CHR '':'' # s)"
proof -
  let ?w = "d @ CHR '':'' # h @ CHR '':'' # m @ CHR '':'' # s"
  have "h @ CHR '':'' # m @ CHR '':'' # s \<in> set (rmatch (Opt FIELD) ?w)"
    by (rule rmatch_Opt_take [OF rmatch_FIELD [OF assms(1)]])
  then have "m @ CHR '':'' # s \<in> set (rmatch (Seq (Opt FIELD) FIELD) ?w)"
    by (rule rmatch_Seq [OF _ rmatch_FIELD [OF assms(2)]])
  then have "m @ CHR '':'' # s \<in> set (rmatch (Opt (Seq (Opt FIELD) FIELD)) ?w)"
    by (rule rmatch_Opt_take)
  then have "s \<in> set (rmatch (Seq (Opt (Seq (Opt FIELD) FIELD)) FIELD) ?w)"
    by (rule rmatch_Seq [OF _ rmatch_FIELD [OF assms(3)]])
  then have "s \<in> set (rmatch (Opt (Seq (Opt (Seq (Opt FIELD) FIELD)) FIELD)) ?w)"
    by (rule rmatch_Opt_take)
  moreover have "[] \<in> set (rmatch Digit_star s)" using digit_star_rest [OF assms(4), of "[]"] by simp
  ultimately have "[] \<in> set (rmatch TIME_REGEX ?w)"
    unfolding TIME_REGEX_FIELD by (rule rmatch_Seq)
  then show ?thesis by (rule match_end)
qed

lemma colon_not_digit: "\<not> is_digit CHR '':''"
  by (simp add: is_digit_def)

lemma digits_no_colon: "list_all is_digit w \<Longrightarrow> CHR '':'' \<notin> set w"
  using colon_not_digit by (auto simp: list_all_iff)

lemma split_on_word: "c \<notin> set w \<Longrightarrow> split_on c w = [w]"
  by (induction w) auto

lemma split_on_sep: "c \<notin> set w \<Longrightarrow> split_on c (w @ c # rest) = w # split_on c rest"
  by (induction w) auto

lemma digit_not_space: "is_digit c \<Longrightarrow> \<not> is_space c"
  by (auto simp: is_digit_def is_space_def)

lemma strip_digits:
  assumes "list_all is_digit ds"
  shows "strip ds = ds"
proof (cases ds rule: rev_cases)
  case Nil
  then show ?thesis by (simp add: strip_def)
next
  case (snoc ys y)
  have first: "dropWhile is_space ds = ds"
    using assms by (cases ds) (simp_all add: digit_not_space)
  have "\<not> is_space y" using assms snoc by (simp add: digit_not_space)
  then have "dropWhile is_space (rev ds) = rev ds" using snoc by simp
  with first show ?thesis by (simp add: strip_def)
qed

lemma py_int_digits:
  assumes "ds \<noteq> []" "list_all is_digit ds"
  shows "py_int ds = Inr (int (digits_value ds))"
proof -
  obtain c r where ds: "ds = c # r" using assms(1) by (cases ds) auto
  have "is_digit c" using assms(2) ds by simp
  then have "c \<noteq> CHR ''-''" "c \<noteq> CHR ''+''" by (auto simp: is_digit_def)
  then show ?thesis
    using assms by (simp add: py_int_def strip_digits ds)
qed

lemma pad_fields_4: "pad_fields [a, b, c, d] = [a, b, c, d]"
  by (subst pad_fields.simps) simp

lemma pad_fields_3: "pad_fields [b, c, d] = [Int_field 0, b, c, d]"
  by (subst pad_fields.simps) (simp add: pad_fields_4)

lemma pad_fields_2: "pad_fields [c, d] = [Int_field 0, Int_field 0, c, d]"
  by (subst pad_fields.simps) (simp add: pad_fields_3)

lemma pad_fields_1: "pad_fields [d] = [Int_field 0, Int_field 0, Int_field 0, d]"
  by (subst pad_fields.simps) (simp add: pad_fields_2)

text \<open>
  One to four non-empty digit fields joined by colons give the number of seconds, the
  missing leading fields counting as zero.
\<close>

lemma walltime_to_seconds_valid:
  assumes "digits d" "digits h" "digits m" "digits s"
  shows "walltime_to_seconds s = Inr (int (digits_value s))"
    and "walltime_to_seconds (m @ '':'' @ s) = Inr (int (digits_value m) * 60 + int (digits_value s))"
    and "walltime_to_seconds (h @ '':'' @ m @ '':'' @ s)
           = Inr ((int (digits_value h) * 60 + int (digits_value m)) * 60 + int (digits_value s))"
    and "walltime_to_seconds (d @ '':'' @ h @ '':'' @ m @ '':'' @ s)
           = Inr (((int (digits_value d) * 24 + int (digits_value h)) * 60
                     + int (digits_value m)) * 60 + int (digits_value s))"
proof -
  note nc = digits_no_colon
  from assms have D: "d \<noteq> []" "list_all is_digit d" and H: "h \<noteq> []" "list_all is_digit h"
    and M: "m \<noteq> []" "list_all is_digit m" and S: "s \<noteq> []" "list_all is_digit s"
    by (simp_all add: digits_def)
  show "walltime_to_seconds s = Inr (int (digits_value s))"
    using match1 [OF S(2)]
    by (simp add: walltime_to_seconds_def split_on_word nc S pad_fields_1 py_int_digits)
  show "walltime_to_seconds (m @ '':'' @ s) = Inr (int (digits_value m) * 60 + int (digits_value s))"
    using match2 [OF M(2) S(2)]
    by (simp add: walltime_to_seconds_def split_on_word split_on_sep nc M S pad_fields_2 py_int_digits)
  show "walltime_to_seconds (h @ '':'' @ m @ '':'' @ s)
           = Inr ((int (digits_value h) * 60 + int (digits_value m)) * 60 + int (digits_value s))"
    using match3 [OF H(2) M(2) S(2)]
    by (simp add: walltime_to_seconds_def split_on_word split_on_sep nc H M S pad_fields_3 py_int_digits)
  show "walltime_to_seconds (d @ '':'' @ h @ '':'' @ m @ '':'' @ s)
           = Inr (((int (digits_value d) * 24 + int (digits_value h)) * 60
                     + int (digits_value m)) * 60 + int (digits_value s))"
    using match4 [OF D(2) H(2) M(2) S(2)]
    by (simp add: walltime_to_seconds_def split_on_word split_on_sep nc D H M S pad_fields_4 py_int_digits)
qed

lemma walltime_no_match:
  "\<not> regex_match TIME_REGEX walltime \<Longrightarrow> walltime_to_seconds walltime = Inl (invalid_walltime walltime)"
  by (simp add: walltime_to_seconds_def)

text \<open>
  The same for every string that \<open>valid_walltime\<close> accepts.
\<close>

lemma split_on_not_Nil: "split_on c w \<noteq> []"
  by (induction w) (auto split: list.splits)

lemma join_on_split_on: "join_on c (split_on c w) = w"
proof (induction w)
  case Nil
  then show ?case by simp
next
  case (Cons x xs)
  obtain v vs where sp: "split_on c xs = v # vs"
    using split_on_not_Nil [of c xs] by (cases "split_on c xs") auto
  show ?case
  proof (cases "x = c")
    case True
    with Cons sp show ?thesis by simp
  next
    case False
    with Cons sp show ?thesis by (cases vs) simp_all
  qed
qed

lemma walltime_to_seconds_fields:
  assumes "valid_walltime w"
  shows "walltime_to_seconds w
           = Inr (seconds_of_fields (map (\<lambda>f. int (digits_value f)) (split_on CHR '':'' w)))"
proof -
  let ?fs = "split_on CHR '':'' w"
  have len: "length ?fs \<le> 4" and dig: "list_all digits ?fs"
    using assms by (simp_all add: valid_walltime_def)
  have w: "w = join_on CHR '':'' ?fs" by (simp add: join_on_split_on)
  have ne: "?fs \<noteq> []" by (rule split_on_not_Nil)
  consider s where "?fs = [s]" | m s where "?fs = [m, s]" | h m s where "?fs = [h, m, s]"
    | d h m s where "?fs = [d, h, m, s]"
  proof -
    obtain a r1 where 1: "?fs = a # r1" using ne by (cases ?fs) auto
    show ?thesis
    proof (cases r1)
      case Nil with 1 that(1) show ?thesis by simp
    next
      case (Cons b r2)
      note 2 = this
      show ?thesis
      proof (cases r2)
        case Nil with 1 2 that(2) show ?thesis by simp
      next
        case (Cons c r3)
        note 3 = this
        show ?thesis
        proof (cases r3)
          case Nil with 1 2 3 that(3) show ?thesis by simp
        next
          case (Cons d r4)
          with 1 2 3 len have "r4 = []" by simp
          with 1 2 3 Cons that(4) show ?thesis by simp
        qed
      qed
    qed
  qed
  then show ?thesis
  proof cases
    case 1
    with dig have "digits s" by simp
    moreover from 1 w have "w = s" by simp
    ultimately show ?thesis
      using walltime_to_seconds_valid(1) [of s s s s] 1 by simp
  next
    case 2
    with dig have "digits m" "digits s" by simp_all
    moreover from 2 w have "w = m @ '':'' @ s" by simp
    ultimately show ?thesis
      using walltime_to_seconds_valid(2) [of m m m s] 2 by simp
  next
    case 3
    with dig have "digits h" "digits m" "digits s" by simp_all
    moreover from 3 w have "w = h @ '':'' @ m @ '':'' @ s" by simp
    ultimately show ?thesis
      using walltime_to_seconds_valid(3) [of h h m s] 3 by simp
  next
    case 4
    with dig have "digits d" "digits h" "digits m" "digits s" by simp_all
    moreover from 4 w have "w = d @ '':'' @ h @ '':'' @ m @ '':'' @ s" by simp
    ultimately show ?thesis
      using walltime_to_seconds_valid(4) [of d h m s] 4 by simp
  qed
qed

text \<open>
  Conversely, what TIME\_REGEX matches is up to three digit fields with their colons, one
  more digit field and nothing or one newline; so a string for which a value is
  returned is a valid walltime, or a valid walltime followed by one newline. Every
  exception of walltime\_to\_seconds is a ValueError.
\<close>

lemma digit_star_sound:
  "r \<in> set (digit_star s) \<Longrightarrow> \<exists>ds. s = ds @ r \<and> list_all is_digit ds"
proof (induction s)
  case Nil
  then show ?case by simp
next
  case (Cons c cs)
  show ?case
  proof (cases "r = c # cs")
    case True
    then have "c # cs = [] @ r \<and> list_all is_digit []" by simp
    then show ?thesis by blast
  next
    case False
    with Cons.prems have c: "is_digit c" and "r \<in> set (digit_star cs)"
      by (auto split: if_splits)
    with Cons.IH obtain ds where "cs = ds @ r" "list_all is_digit ds" by blast
    with c have "c # cs = (c # ds) @ r \<and> list_all is_digit (c # ds)" by simp
    then show ?thesis by blast
  qed
qed

lemma FIELD_sound:
  assumes "r \<in> set (rmatch FIELD s)"
  shows "\<exists>ds. s = ds @ CHR '':'' # r \<and> list_all is_digit ds"
proof -
  from assms obtain t where t: "t \<in> set (digit_star s)" and r: "r \<in> set (rmatch (Chr CHR '':'') t)"
    by (auto simp: FIELD_def)
  from r have "t = CHR '':'' # r" by (cases t) (auto split: if_splits)
  with digit_star_sound [OF t] show ?thesis by auto
qed

lemma fields_first:
  assumes "r \<in> set (rmatch (Opt FIELD) s)"
  shows "\<exists>fs. length fs \<le> 1 \<and> list_all (list_all is_digit) fs \<and> s = colon_fields fs @ r"
proof (cases "r \<in> set (rmatch FIELD s)")
  case True
  from FIELD_sound [OF True] obtain ds where "s = ds @ CHR '':'' # r" "list_all is_digit ds" by blast
  then have "length [ds] \<le> 1 \<and> list_all (list_all is_digit) [ds] \<and> s = colon_fields [ds] @ r"
    by (simp add: colon_fields_def)
  then show ?thesis by blast
next
  case False
  with assms have "r = s" by simp
  then have "length ([] :: string list) \<le> 1 \<and> list_all (list_all is_digit) [] \<and> s = colon_fields [] @ r"
    by (simp add: colon_fields_def)
  then show ?thesis by blast
qed

lemma fields_next:
  assumes a: "\<And>s r. r \<in> set (rmatch a s) \<Longrightarrow>
                \<exists>fs. length fs \<le> n \<and> list_all (list_all is_digit) fs \<and> s = colon_fields fs @ r"
    and r: "r \<in> set (rmatch (Opt (Seq a FIELD)) s)"
  shows "\<exists>fs. length fs \<le> Suc n \<and> list_all (list_all is_digit) fs \<and> s = colon_fields fs @ r"
proof (cases "r \<in> set (rmatch (Seq a FIELD) s)")
  case True
  then obtain t where t: "t \<in> set (rmatch a s)" and rt: "r \<in> set (rmatch FIELD t)" by auto
  from a [OF t] obtain fs where fs: "length fs \<le> n" "list_all (list_all is_digit) fs" "s = colon_fields fs @ t"
    by blast
  from FIELD_sound [OF rt] obtain ds where ds: "t = ds @ CHR '':'' # r" "list_all is_digit ds" by blast
  from fs ds have "length (fs @ [ds]) \<le> Suc n \<and> list_all (list_all is_digit) (fs @ [ds]) \<and>
                   s = colon_fields (fs @ [ds]) @ r"
    by (simp add: colon_fields_def)
  then show ?thesis by blast
next
  case False
  with r have "r = s" by simp
  then have "length ([] :: string list) \<le> Suc n \<and> list_all (list_all is_digit) [] \<and> s = colon_fields [] @ r"
    by (simp add: colon_fields_def)
  then show ?thesis by blast
qed

lemma TIME_REGEX_sound:
  assumes "r \<in> set (rmatch TIME_REGEX s)"
  shows "\<exists>fs ds. length fs \<le> 3 \<and> list_all (list_all is_digit) fs \<and> list_all is_digit ds \<and>
                 s = colon_fields fs @ ds @ r"
proof -
  let ?R3 = "Opt (Seq (Opt (Seq (Opt FIELD) FIELD)) FIELD)"
  from assms obtain t where t: "t \<in> set (rmatch ?R3 s)" and rt: "r \<in> set (digit_star t)"
    unfolding TIME_REGEX_FIELD by auto
  have two: "\<exists>fs. length fs \<le> Suc 1 \<and> list_all (list_all is_digit) fs \<and> s = colon_fields fs @ r"
    if "r \<in> set (rmatch (Opt (Seq (Opt FIELD) FIELD)) s)" for s r
    using fields_first that by (rule fields_next)
  have "\<exists>fs. length fs \<le> Suc (Suc 1) \<and> list_all (list_all is_digit) fs \<and> s = colon_fields fs @ t"
    using two t by (rule fields_next)
  then obtain fs where fs': "length fs \<le> Suc (Suc 1)" and
    fs: "list_all (list_all is_digit) fs" "s = colon_fields fs @ t"
    by blast
  from fs' have len: "length fs \<le> 3" by simp
  from digit_star_sound [OF rt] obtain ds where "t = ds @ r" "list_all is_digit ds" by blast
  with fs len show ?thesis by blast
qed

lemma split_on_colon_fields:
  assumes "list_all (list_all is_digit) fs" "CHR '':'' \<notin> set rest"
  shows "split_on CHR '':'' (colon_fields fs @ rest) = fs @ [rest]"
  using assms
proof (induction fs)
  case Nil
  then show ?case by (simp add: colon_fields_def split_on_word)
next
  case (Cons f fs)
  then have "CHR '':'' \<notin> set f" by (simp add: digits_no_colon)
  then have "split_on CHR '':'' (f @ CHR '':'' # (colon_fields fs @ rest))
             = f # split_on CHR '':'' (colon_fields fs @ rest)"
    by (rule split_on_sep)
  with Cons show ?case by (simp add: colon_fields_def)
qed

lemma pad_fields_eq: "pad_fields xs = replicate (4 - length xs) (Int_field 0) @ xs"
proof (induction xs rule: pad_fields.induct)
  case (1 split)
  show ?case
  proof (cases "length split < 4")
    case True
    then have "4 - length split = Suc (4 - length (Int_field 0 # split))" by simp
    then have "replicate (4 - length split) (Int_field 0) @ split
               = replicate (4 - length (Int_field 0 # split)) (Int_field 0) @ Int_field 0 # split"
      by (simp add: replicate_app_Cons_same)
    with 1 True show ?thesis by (subst pad_fields.simps) simp
  next
    case False
    then show ?thesis by (subst pad_fields.simps) simp
  qed
qed

lemma map_int_append_Inr:
  "map_int (xs @ ys) = Inr v \<Longrightarrow> \<exists>v2. map_int ys = Inr v2"
  by (induction xs arbitrary: v) (auto split: sum.splits)

lemma map_int_strings_Inr:
  "map_int (map Str_field ws) = Inr v \<Longrightarrow> w \<in> set ws \<Longrightarrow> \<exists>i. py_int w = Inr i"
  by (induction ws arbitrary: v) (auto split: sum.splits)

lemma py_int_empty: "py_int [] = Inl (ValueError ''invalid literal for int() with base 10'')"
  by (simp add: py_int_def strip_def)

lemma py_int_newline: "py_int [CHR 0x0A] = Inl (ValueError ''invalid literal for int() with base 10'')"
  by (simp add: py_int_def strip_def is_space_def)

lemma walltime_to_seconds_Inr:
  assumes "walltime_to_seconds w = Inr v"
  shows "valid_walltime w \<or> (\<exists>w'. w = w' @ [CHR 0x0A] \<and> valid_walltime w')"
proof -
  from assms have m: "regex_match TIME_REGEX w"
    by (auto simp: walltime_to_seconds_def split: if_splits)
  then obtain r where r: "r \<in> set (rmatch TIME_REGEX w)" and e: "r = [] \<or> r = [CHR 0x0A]"
    by (auto simp: regex_match_def list_ex_iff at_end_def)
  from TIME_REGEX_sound [OF r] obtain fs ds where
    len: "length fs \<le> 3" and fs: "list_all (list_all is_digit) fs" and ds: "list_all is_digit ds"
    and w: "w = colon_fields fs @ ds @ r"
    by blast
  have nc: "CHR '':'' \<notin> set (ds @ r)" using ds e by (auto simp: digits_no_colon)
  have sp: "split_on CHR '':'' w = fs @ [ds @ r]"
    unfolding w using fs nc by (rule split_on_colon_fields)
  from assms m obtain vals where "map_int (pad_fields (map Str_field (fs @ [ds @ r]))) = Inr vals"
    by (auto simp: walltime_to_seconds_def sp split: sum.splits)
  then obtain v2 where ok: "map_int (map Str_field (fs @ [ds @ r])) = Inr v2"
    unfolding pad_fields_eq using map_int_append_Inr by blast
  have fne: "f \<noteq> []" if "f \<in> set fs" for f
  proof
    assume "f = []"
    moreover from map_int_strings_Inr [OF ok, of f] that obtain i where "py_int f = Inr i" by auto
    ultimately show False by (simp add: py_int_empty)
  qed
  have dne: "ds \<noteq> []"
  proof
    assume "ds = []"
    moreover from map_int_strings_Inr [OF ok, of "ds @ r"] obtain i where "py_int (ds @ r) = Inr i" by auto
    ultimately show False using e by (auto simp: py_int_empty py_int_newline)
  qed
  have sp': "split_on CHR '':'' (colon_fields fs @ ds) = fs @ [ds]"
    using fs digits_no_colon [OF ds] by (rule split_on_colon_fields)
  have "list_all digits (fs @ [ds])"
    using fs fne dne ds by (auto simp: digits_def list_all_iff)
  then have valid: "valid_walltime (colon_fields fs @ ds)"
    using len by (simp add: valid_walltime_def sp')
  from e show ?thesis
  proof
    assume "r = []"
    with w valid show ?thesis by simp
  next
    assume "r = [CHR 0x0A]"
    with w have "w = (colon_fields fs @ ds) @ [CHR 0x0A]" by simp
    with valid show ?thesis by blast
  qed
qed

lemma map_int_error: "map_int fs = Inl e \<Longrightarrow> \<exists>msg. e = ValueError msg"
proof (induction fs arbitrary: e)
  case Nil
  then show ?case by simp
next
  case (Cons f fs)
  show ?case
  proof (cases f)
    case (Int_field i)
    with Cons show ?thesis by (auto split: sum.splits)
  next
    case (Str_field s)
    have "py_int s = Inl e' \<Longrightarrow> \<exists>msg. e' = ValueError msg" for e'
      by (auto simp: py_int_def Let_def split: if_splits prod.splits)
    with Cons Str_field show ?thesis by (auto split: sum.splits)
  qed
qed

lemma walltime_to_seconds_error:
  "walltime_to_seconds w = Inl e \<Longrightarrow> \<exists>msg. e = ValueError msg"
  by (auto simp: walltime_to_seconds_def invalid_walltime_def
      split: if_splits sum.splits list.splits dest: map_int_error)

section \<open>Claims on job folders\<close>

text \<open>
  Claim C7. \<open>get_job_folders\<close>, which resume mode calls on the batch UID, raises the
  LookupError "Batch UID (...) does not exist! Cannot resume." exactly when the commands
  directory of that UID does not exist, and raises nothing else. When the directory
  exists it returns the two paths; afterwards the logs directory exists, every path
  that existed still does, and a logs directory that existed already leaves the file
  system as it was. (The file system of the model has no failure of its own, such as
  a missing permission.)
\<close>

theorem get_job_folders_resume:
  "(get_job_folders cwd jobname fs = Inl (unknown_batch jobname))
     = (\<not> os_path_exists fs (snd (gen_job_paths cwd jobname))) \<and>
   (\<forall>e. get_job_folders cwd jobname fs = Inl e \<longrightarrow> e = unknown_batch jobname) \<and>
   (os_path_exists fs (snd (gen_job_paths cwd jobname)) \<longrightarrow>
      (\<exists>fs'. get_job_folders cwd jobname fs = Inr (gen_job_paths cwd jobname, fs') \<and>
             os_path_exists fs' (fst (gen_job_paths cwd jobname)) \<and>
             os_path_exists fs' (snd (gen_job_paths cwd jobname)) \<and>
             fs \<subseteq> fs' \<and>
             (os_path_exists fs (fst (gen_job_paths cwd jobname)) \<longrightarrow> fs' = fs)))"
proof (cases "os_path_exists fs (snd (gen_job_paths cwd jobname))")
  case True
  note present = get_job_folders_present [OF True]
  show ?thesis
    unfolding present using True by (auto simp: os_path_exists_def)
next
  case False
  show ?thesis
    unfolding get_job_folders_missing [OF False] using False by simp
qed

text \<open>
  Claim C7 for the job \<open>job1\<close>: without its commands directory, with it, and with both
  directories, where the file system stays as it is.
\<close>

theorem get_job_folders_resume_witness:
  "get_job_folders ''/home/u'' ''job1'' {} = Inl (unknown_batch ''job1'') \<and>
   os_path_exists {''/home/u/SMART_DISPATCH_LOGS/job1/commands''}
     (snd (gen_job_paths ''/home/u'' ''job1'')) \<and>
   (\<exists>fs'. get_job_folders ''/home/u'' ''job1'' {''/home/u/SMART_DISPATCH_LOGS/job1/commands''}
            = Inr (gen_job_paths ''/home/u'' ''job1'', fs') \<and>
          os_path_exists fs' (fst (gen_job_paths ''/home/u'' ''job1'')) \<and>
          os_path_exists fs' (snd (gen_job_paths ''/home/u'' ''job1'')) \<and>
          {''/home/u/SMART_DISPATCH_LOGS/job1/commands''} \<subseteq> fs') \<and>
   get_job_folders ''/home/u'' ''job1''
       {''/home/u/SMART_DISPATCH_LOGS/job1/logs'', ''/home/u/SMART_DISPATCH_LOGS/job1/commands''}
     = Inr (gen_job_paths ''/home/u'' ''job1'',
            {''/home/u/SMART_DISPATCH_LOGS/job1/logs'', ''/home/u/SMART_DISPATCH_LOGS/job1/commands''})"
proof -
  let ?cmds = "''/home/u/SMART_DISPATCH_LOGS/job1/commands''"
  let ?logs = "''/home/u/SMART_DISPATCH_LOGS/job1/logs''"
  have absent: "\<not> os_path_exists {} (snd (gen_job_paths ''/home/u'' ''job1''))"
    by (simp add: os_path_exists_def)
  have present: "os_path_exists {?cmds} (snd (gen_job_paths ''/home/u'' ''job1''))"
    by (simp add: os_path_exists_def gen_job_paths_example)
  have both: "os_path_exists {?logs, ?cmds} (snd (gen_job_paths ''/home/u'' ''job1''))"
    "os_path_exists {?logs, ?cmds} (fst (gen_job_paths ''/home/u'' ''job1''))"
    by (simp_all add: os_path_exists_def gen_job_paths_example)
  from absent get_job_folders_resume [of "''/home/u''" "''job1''" "{}"]
  have a: "get_job_folders ''/home/u'' ''job1'' {} = Inl (unknown_batch ''job1'')"
    by blast
  from present get_job_folders_resume [of "''/home/u''" "''job1''" "{?cmds}"]
  have b: "\<exists>fs'. get_job_folders ''/home/u'' ''job1'' {?cmds}
            = Inr (gen_job_paths ''/home/u'' ''job1'', fs') \<and>
          os_path_exists fs' (fst (gen_job_paths ''/home/u'' ''job1'')) \<and>
          os_path_exists fs' (snd (gen_job_paths ''/home/u'' ''job1'')) \<and>
          {?cmds} \<subseteq> fs'"
    by blast
  from both get_job_folders_resume [of "''/home/u''" "''job1''" "{?logs, ?cmds}"]
  have c: "get_job_folders ''/home/u'' ''job1'' {?logs, ?cmds}
             = Inr (gen_job_paths ''/home/u'' ''job1'', {?logs, ?cmds})"
    by blast
  from a present b c show ?thesis by (intro conjI)
qed

text \<open>
  Claim C6, as the code has it. When the commands directory of the job exists already,
  \<open>create_job_folders\<close> does not raise: the test on line 162 skips the creation, the
  logs directory is created if it is absent, and both paths are returned with every
  existing path kept.
\<close>

theorem create_job_folders_existing:
  assumes "os_path_exists fs (snd (gen_job_paths cwd jobname))"
  shows "\<exists>fs'. create_job_folders cwd jobname fs = Inr (gen_job_paths cwd jobname, fs') \<and>
           os_path_exists fs' (fst (gen_job_paths cwd jobname)) \<and>
           os_path_exists fs' (snd (gen_job_paths cwd jobname)) \<and>
           fs \<subseteq> fs' \<and>
           (os_path_exists fs (fst (gen_job_paths cwd jobname)) \<longrightarrow> fs' = fs)"
  unfolding create_job_folders_total using assms by (auto simp: os_path_exists_def)

text \<open>Claim C6 as amended, for a job whose commands directory exists and whose logs directory does not.\<close>

theorem create_job_folders_existing_witness:
  "os_path_exists {''/home/u/SMART_DISPATCH_LOGS/job1/commands''}
     (snd (gen_job_paths ''/home/u'' ''job1'')) \<and>
   (\<exists>fs'. create_job_folders ''/home/u'' ''job1'' {''/home/u/SMART_DISPATCH_LOGS/job1/commands''}
            = Inr (gen_job_paths ''/home/u'' ''job1'', fs') \<and>
          os_path_exists fs' (fst (gen_job_paths ''/home/u'' ''job1'')) \<and>
          os_path_exists fs' (snd (gen_job_paths ''/home/u'' ''job1'')) \<and>
          {''/home/u/SMART_DISPATCH_LOGS/job1/commands''} \<subseteq> fs')"
proof -
  have present: "os_path_exists {''/home/u/SMART_DISPATCH_LOGS/job1/commands''}
                   (snd (gen_job_paths ''/home/u'' ''job1''))"
    by (simp add: os_path_exists_def gen_job_paths_example)
  from create_job_folders_existing [OF present]
  have b: "\<exists>fs'. create_job_folders ''/home/u'' ''job1'' {''/home/u/SMART_DISPATCH_LOGS/job1/commands''}
            = Inr (gen_job_paths ''/home/u'' ''job1'', fs') \<and>
          os_path_exists fs' (fst (gen_job_paths ''/home/u'' ''job1'')) \<and>
          os_path_exists fs' (snd (gen_job_paths ''/home/u'' ''job1'')) \<and>
          {''/home/u/SMART_DISPATCH_LOGS/job1/commands''} \<subseteq> fs'"
    by blast
  from present b show ?thesis by (intro conjI)
qed

text \<open>
  Claim C6 as stated fails: for a job whose logs and commands directories both exist,
  \<open>create_job_folders\<close> returns the two paths and leaves the file system unchanged.
\<close>

theorem create_job_folders_counterexample:
  "create_job_folders ''/home/u'' ''job1''
     {''/home/u/SMART_DISPATCH_LOGS/job1/logs'', ''/home/u/SMART_DISPATCH_LOGS/job1/commands''}
   = Inr ((''/home/u/SMART_DISPATCH_LOGS/job1/logs'', ''/home/u/SMART_DISPATCH_LOGS/job1/commands''),
          {''/home/u/SMART_DISPATCH_LOGS/job1/logs'', ''/home/u/SMART_DISPATCH_LOGS/job1/commands''})"
  by (simp add: create_job_folders_total gen_job_paths_example os_path_exists_def)

section \<open>Claims on the script builder\<close>

text \<open>
  Claim C8. For the groups that the chunking of main produces, the calls on the script
  builder are, group after group in the order of the groups, \<open>add_commands\<close> with the
  commands of the group, \<open>save\<close> with the script name of the group and
  \<open>clear_commands\<close>, and nothing else; there is one script name per group, and the
  names are pairwise distinct.
\<close>

theorem generate_qsub_files_calls:
  assumes "distribute commands per_node = Inr groups"
  shows "\<exists>names. generate_qsub_files commands per_node path
                   = Inr (concat (map2 (\<lambda>g name. [Add_commands g, Save name, Clear_commands])
                                    groups names), names) \<and>
                 names = map (qsub_filename_of path) [0..<length groups] \<and>
                 length names = length groups \<and> distinct names"
proof -
  let ?names = "map (qsub_filename_of path) [0..<length groups]"
  have "generate_qsub_files commands per_node path
          = Inr (concat (map2 (\<lambda>g name. [Add_commands g, Save name, Clear_commands])
                           groups ?names), ?names)"
    using assms by (simp add: generate_qsub_files_def write_jobs_eq)
  moreover have "length ?names = length groups" by simp
  moreover have "distinct ?names" using distinct_qsub_filenames [of path 0 "length groups"] by simp
  ultimately show ?thesis by blast
qed

text \<open>Claim C8 at three commands and two commands per node.\<close>

theorem generate_qsub_files_calls_witness:
  "distribute [''echo a'', ''echo b'', ''echo c''] 2 = Inr [[''echo a'', ''echo b''], [''echo c'']] \<and>
   (\<exists>names. generate_qsub_files [''echo a'', ''echo b'', ''echo c''] 2 ''/c''
              = Inr (concat (map2 (\<lambda>g name. [Add_commands g, Save name, Clear_commands])
                               [[''echo a'', ''echo b''], [''echo c'']] names), names) \<and>
            names = map (qsub_filename_of ''/c'') [0..<length [[''echo a'', ''echo b''], [''echo c'']]] \<and>
            length names = length [[''echo a'', ''echo b''], [''echo c'']] \<and> distinct names)"
proof -
  note h = distribute_example
  show ?thesis
    apply (rule conjI [OF h])
    apply (rule generate_qsub_files_calls [OF h])
    done
qed

section \<open>Claims on the pool of workers\<close>

text \<open>
  Claim C5 does not hold of the code. Line 61 names the queue file
  \<^verbatim>\<open>os.path.join(qsub_directory, "commands.txt")\<close>, and \<^verbatim>\<open>qsub_directory\<close> is bound
  nowhere (the commands directory is \<^verbatim>\<open>path_job_commands\<close>). So with \<^verbatim>\<open>--pool\<close> main
  never gets to a queue file: it raises NameError, or, in resume mode on a batch
  without commands directory, the LookupError of \<open>get_job_folders\<close> before that.
\<close>

theorem main_pool_name_error:
  assumes "pool args = Some p"
  shows "main ext args job cwd fs = Inl (NameError ''qsub_directory'') \<or>
         (mode args = Resume \<and> main ext args job cwd fs = Inl (unknown_batch (batch_uid args)))"
proof (cases "mode args")
  case Launch
  with assms show ?thesis by (simp add: main_launch_pool)
next
  case Resume
  with assms show ?thesis by (simp add: main_resume_pool)
qed

text \<open>Claim C5 in launch mode with a pool of two workers.\<close>

theorem main_pool_name_error_witness:
  "pool \<lparr>mode = Launch, pool = Some 2, nbCommandsPerNode = 1, doNotLaunch = True, batch_uid = []\<rparr>
     = Some 2 \<and>
   main \<lparr>generate_name_from_command = take 30, commands_filename_of = id\<rparr>
        \<lparr>mode = Launch, pool = Some 2, nbCommandsPerNode = 1, doNotLaunch = True, batch_uid = []\<rparr>
        \<lparr>job_name = ''job1'', job_commands = [''echo a'', ''echo b'', ''echo c'']\<rparr>
        ''/home/u'' {}
     = Inl (NameError ''qsub_directory'')"
  using main_pool_name_error
    [of "\<lparr>mode = Launch, pool = Some 2, nbCommandsPerNode = 1, doNotLaunch = True, batch_uid = []\<rparr>"
        2 "\<lparr>generate_name_from_command = take 30, commands_filename_of = id\<rparr>"
        "\<lparr>job_name = ''job1'', job_commands = [''echo a'', ''echo b'', ''echo c'']\<rparr>"
        "''/home/u''" "{}"]
  by simp




section \<open>Claims on utils\<close>

text \<open>
  Claim C9. For every job name and every job id whose string form has at most 63
  characters, \<open>jobname_generator\<close> returns at most 64 characters, made of a prefix of the
  job name, an underscore and the string form of the job id.
\<close>

theorem jobname_generator_length:
  assumes "length (str_job_id job_id) \<le> 63"
  shows "length (jobname_generator jobname job_id) \<le> 64 \<and>
         (\<exists>k. jobname_generator jobname job_id = take k jobname @ ''_'' @ str_job_id job_id)"
proof (cases "length jobname + length (str_job_id job_id) > 63")
  case True
  let ?n = "63 - length (str_job_id job_id)"
  have k: "63 - int (length (str_job_id job_id)) = int ?n" using assms by simp
  have eq: "jobname_generator jobname job_id = take ?n jobname @ ''_'' @ str_job_id job_id"
    using True by (simp add: jobname_generator_def slice_to_def k Let_def del: of_nat_diff)
  have "length (take ?n jobname) = ?n" using True by simp
  then have "length (jobname_generator jobname job_id) \<le> 64"
    unfolding eq using assms by simp
  with eq show ?thesis by blast
next
  case False
  then have eq: "jobname_generator jobname job_id = jobname @ ''_'' @ str_job_id job_id"
    by (simp add: jobname_generator_def Let_def)
  then have "jobname_generator jobname job_id = take (length jobname) jobname @ ''_'' @ str_job_id job_id"
    by simp
  moreover have "length (jobname_generator jobname job_id) \<le> 64"
    unfolding eq using False by simp
  ultimately show ?thesis by blast
qed

text \<open>Claim C9 at a job name of 70 characters and the job id 12.\<close>

theorem jobname_generator_length_witness:
  "length (str_job_id (Id_int 12)) \<le> 63 \<and>
   length (jobname_generator (replicate 70 CHR ''x'') (Id_int 12)) \<le> 64 \<and>
   (\<exists>k. jobname_generator (replicate 70 CHR ''x'') (Id_int 12)
          = take k (replicate 70 CHR ''x'') @ ''_'' @ str_job_id (Id_int 12))"
proof -
  have h: "length (str_job_id (Id_int 12)) \<le> 63" by code_simp
  show ?thesis using h jobname_generator_length [OF h, of "replicate 70 CHR ''x''"] by blast
qed

text \<open>
  Claim C10 does not hold of the code in its second half. \<^verbatim>\<open>$\<close> also matches before a
  newline that ends the string and \<^verbatim>\<open>int\<close> strips whitespace, so \<^verbatim>\<open>"12\n"\<close>, which is
  not made of colon-separated digit fields, gives 12 instead of a ValueError. The
  first half holds (\<open>walltime_to_seconds_fields\<close>), and a valid walltime followed by
  one newline is the only kind of string that is not a valid walltime and still gives
  a value (\<open>walltime_to_seconds_Inr\<close>).
\<close>

theorem walltime_trailing_newline:
  "walltime_to_seconds (''12'' @ [CHR 0x0A]) = Inr 12 \<and> \<not> valid_walltime (''12'' @ [CHR 0x0A])"
  by code_simp

end
